theory Spec2Isabelle
  imports Main "HOL-Library.Char_ord" "HOL-Library.List_Lexorder" "HOL-Library.Multiset"
begin

section \<open>Python values and library functions used by the notebook\<close>

text \<open>
  The notebook \<^verbatim>\<open>codecfake_upload_to_huggingface.ipynb\<close> is embedded function by
  function. Python integers are \<^typ>\<open>int\<close>, Python strings are \<^typ>\<open>string\<close>, ordered
  lexicographically by character code as Python orders them. An exception is a value of
  \<open>py_error\<close>, returned as \<open>Inl\<close>.
\<close>

datatype py_error = ValueError | ZeroDivisionError | KeyError

text \<open>\<^verbatim>\<open>str.startswith\<close> and \<^verbatim>\<open>str.endswith\<close>.\<close>

definition startswith :: "string \<Rightarrow> string \<Rightarrow> bool" where
  "startswith s p = (take (length p) s = p)"

definition endswith :: "string \<Rightarrow> string \<Rightarrow> bool" where
  "endswith s p = (length p \<le> length s \<and> drop (length s - length p) s = p)"

text \<open>Decimal rendering of a non-negative integer, as an f-string renders \<^verbatim>\<open>chunk_index\<close>.\<close>

definition digit_char :: "nat \<Rightarrow> char" where
  "digit_char d = ''0123456789'' ! d"

function str_nat :: "nat \<Rightarrow> string" where
  "str_nat n = (if n < 10 then [digit_char n] else str_nat (n div 10) @ [digit_char (n mod 10)])"
  by pat_completeness auto
termination
  by (relation "measure id") auto

text \<open>
  \<^verbatim>\<open>os.path.join\<close> (two arguments), \<^verbatim>\<open>os.path.dirname\<close> and \<^verbatim>\<open>os.path.basename\<close>, in
  their POSIX versions: \<^verbatim>\<open>join\<close> lets an absolute second component replace the first and
  inserts a separator unless the first is empty or ends with one; \<^verbatim>\<open>basename\<close> is what
  follows the last separator; \<^verbatim>\<open>dirname\<close> is what precedes it, with trailing separators
  stripped unless nothing else is left.
\<close>

definition sep :: char where
  "sep = CHR ''/''"

definition path_join :: "string \<Rightarrow> string \<Rightarrow> string" where
  "path_join a b =
     (if startswith b [sep] then b
      else if a = [] \<or> endswith a [sep] then a @ b
      else a @ [sep] @ b)"

definition basename :: "string \<Rightarrow> string" where
  "basename p = rev (takeWhile (\<lambda>c. c \<noteq> sep) (rev p))"

definition dirname :: "string \<Rightarrow> string" where
  "dirname p =
     (let head = rev (dropWhile (\<lambda>c. c \<noteq> sep) (rev p))
      in if head \<noteq> [] \<and> head \<noteq> replicate (length head) sep
         then rev (dropWhile (\<lambda>c. c = sep) (rev head))
         else head)"

section \<open>Building the table of audio files: \<open>create_df\<close>\<close>

text \<open>
  A row of the data frame has the three columns the source appends:
  \<^verbatim>\<open>{"audio": file_path, "audio_id": audio_id, "real_or_fake": real_or_fake}\<close>.
\<close>

record row =
  audio :: string
  audio_id :: string
  real_or_fake :: string

text \<open>
  The body of the inner loop \<^verbatim>\<open>for file in files\<close>. The state is the list \<^verbatim>\<open>data\<close>
  together with the lines printed so far.
\<close>

definition visit_file :: "string \<Rightarrow> row list \<times> string list \<Rightarrow> string \<Rightarrow> row list \<times> string list" where
  "visit_file root st file =
     (case st of (data, printed) \<Rightarrow>
        if endswith file ''.flac'' then
          (let file_path = path_join root file;
               aid = basename (dirname file_path)
           in if startswith aid ''SSB'' then (data, printed @ [''Skipping '' @ aid])
              else
                (let rf = (if startswith file ''F0'' then take 3 file else ''R'')
                 in (data @ [\<lparr>audio = file_path, audio_id = aid, real_or_fake = rf\<rparr>], printed)))
        else (data, printed))"

text \<open>
  \<^verbatim>\<open>os.walk\<close> is the input: the list of \<^verbatim>\<open>(root, dirs, files)\<close> triples it yields. The
  result is the data frame (its rows, in order) and the printed lines. The progress bar
  around the walk, with the directory listing that sizes it, is input and output around
  the scan and is left out.
\<close>

type_synonym walk_entry = "string \<times> string list \<times> string list"

definition visit_dir :: "row list \<times> string list \<Rightarrow> walk_entry \<Rightarrow> row list \<times> string list" where
  "visit_dir st entry = (case entry of (root, dirs, files) \<Rightarrow> foldl (visit_file root) st files)"

definition create_df :: "walk_entry list \<Rightarrow> row list \<times> string list" where
  "create_df walk = foldl visit_dir ([], []) walk"

text \<open>
  \<^verbatim>\<open>df['audio_id'].nunique()\<close>. A data frame built from an empty list has no columns, so
  selecting the column raises \<^verbatim>\<open>KeyError\<close>.
\<close>

definition nunique_audio_id :: "row list \<Rightarrow> py_error + int" where
  "nunique_audio_id df =
     (if df = [] then Inl KeyError else Inr (int (card (audio_id ` set df))))"

section \<open>Choosing the chunk size: \<open>find_best_chunk_size\<close>\<close>



section \<open>Creating the chunks\<close>

text \<open>
  \<^verbatim>\<open>df.copy().groupby('audio_id')\<close>, iterated: pandas sorts the group keys (\<^verbatim>\<open>sort=True\<close>
  is the default) and each group holds the rows of its key in their original order. On a
  data frame without columns the call raises \<^verbatim>\<open>KeyError\<close>.
\<close>

type_synonym grp = "string \<times> row list"

definition group_rows :: "row list \<Rightarrow> grp list" where
  "group_rows df =
     map (\<lambda>k. (k, filter (\<lambda>r. audio_id r = k) df)) (sort (remdups (map audio_id df)))"

definition groupby_audio_id :: "row list \<Rightarrow> py_error + grp list" where
  "groupby_audio_id df = (if df = [] then Inl KeyError else Inr (group_rows df))"

text \<open>
  The variables of the cell, and the loop \<^verbatim>\<open>for audio_id, group in grouped\<close> as a fold
  of its body \<open>chunk_step\<close> over the groups, followed by the saving of the last chunk.
  A saved chunk is its name and its rows: turning the rows into a \<^verbatim>\<open>Dataset\<close> and
  decoding the audio column is left to the library.
\<close>

record chunk_state =
  chunk_index :: nat
  datasets :: "(string \<times> row list) list"
  current_chunk :: "row list"
  audio_ids_so_far :: "string set"

definition save_chunk :: "row list \<Rightarrow> nat \<Rightarrow> chunk_state \<Rightarrow> chunk_state" where
  "save_chunk chunk_data idx st =
     (let chunk_name = ''partition'' @ str_nat idx
      in st\<lparr>datasets := datasets st @ [(chunk_name, chunk_data)]\<rparr>)"

definition chunk_step :: "int \<Rightarrow> chunk_state \<Rightarrow> grp \<Rightarrow> chunk_state" where
  "chunk_step chunk_size st g =
     (case g of (aid, group_rows_of_id) \<Rightarrow>
        if aid \<in> audio_ids_so_far st then st
        else
          (let st1 =
                 (if int (card (audio_ids_so_far st)) + 1 > chunk_size
                  then (save_chunk (current_chunk st) (chunk_index st) st)
                         \<lparr>chunk_index := chunk_index st + 1,
                          current_chunk := [],
                          audio_ids_so_far := {}\<rparr>
                  else st)
           in st1\<lparr>current_chunk := current_chunk st1 @ group_rows_of_id,
                 audio_ids_so_far := insert aid (audio_ids_so_far st1)\<rparr>))"

definition initial_state :: chunk_state where
  "initial_state = \<lparr>chunk_index = 0, datasets = [], current_chunk = [], audio_ids_so_far = {}\<rparr>"

definition save_last :: "chunk_state \<Rightarrow> chunk_state" where
  "save_last st =
     (if current_chunk st \<noteq> [] then save_chunk (current_chunk st) (chunk_index st) st else st)"

definition create_chunks :: "row list \<Rightarrow> int \<Rightarrow> py_error + (string \<times> row list) list" where
  "create_chunks df chunk_size =
     (case groupby_audio_id df of
        Inl e \<Rightarrow> Inl e
      | Inr grouped \<Rightarrow>
          Inr (datasets (save_last (foldl (chunk_step chunk_size) initial_state grouped))))"

text \<open>
  The cell ends with the list \<^verbatim>\<open>datasets\<close> of named chunks, in the order they were
  saved: this list is the partition plan, and the \<^verbatim>\<open>DatasetDict\<close> built from it keeps
  its entries in that order. The group ids that occur in a chunk:
\<close>

definition chunk_ids :: "string \<times> row list \<Rightarrow> string set" where
  "chunk_ids c = audio_id ` set (snd c)"

section \<open>Auxiliary notions for the proofs\<close>

text \<open>
  The items of the walk as \<open>create_df\<close> treats them: the group id of a file, the row it
  becomes, whether it is retained and whether it is skipped with a message.
\<close>

definition item_id :: "string \<Rightarrow> string \<Rightarrow> string" where
  "item_id root file = basename (dirname (path_join root file))"

definition item_row :: "string \<Rightarrow> string \<Rightarrow> row" where
  "item_row root file =
     \<lparr>audio = path_join root file, audio_id = item_id root file,
      real_or_fake = (if startswith file ''F0'' then take 3 file else ''R'')\<rparr>"

definition retained :: "string \<Rightarrow> string \<Rightarrow> bool" where
  "retained root file \<longleftrightarrow> endswith file ''.flac'' \<and> \<not> startswith (item_id root file) ''SSB''"

definition skipped :: "string \<Rightarrow> string \<Rightarrow> bool" where
  "skipped root file \<longleftrightarrow> endswith file ''.flac'' \<and> startswith (item_id root file) ''SSB''"

definition dir_rows :: "walk_entry \<Rightarrow> row list" where
  "dir_rows entry =
     (case entry of (root, dirs, files) \<Rightarrow> map (item_row root) (filter (retained root) files))"

definition dir_prints :: "walk_entry \<Rightarrow> string list" where
  "dir_prints entry =
     (case entry of (root, dirs, files) \<Rightarrow>
        map (\<lambda>f. ''Skipping '' @ item_id root f) (filter (skipped root) files))"

text \<open>
  Two ways of thinning a walk before it is scanned: keeping only the files named
  \<^verbatim>\<open>*.flac\<close>, and removing the files whose group id starts with \<^verbatim>\<open>SSB\<close>.
\<close>

definition flac_only :: "walk_entry \<Rightarrow> walk_entry" where
  "flac_only entry =
     (case entry of (root, dirs, files) \<Rightarrow> (root, dirs, filter (\<lambda>f. endswith f ''.flac'') files))"

definition drop_excluded :: "walk_entry \<Rightarrow> walk_entry" where
  "drop_excluded entry =
     (case entry of (root, dirs, files) \<Rightarrow>
        (root, dirs, filter (\<lambda>f. \<not> startswith (item_id root f) ''SSB'') files))"

text \<open>
  The chunk loop seen on whole groups: the groups sealed so far, chunk by chunk, and the
  groups of the current chunk. \<open>layout\<close> is the list of chunks the loop ends with, each as
  the list of its groups, and \<open>named\<close> gives chunks their names and rows.
\<close>

definition rows_of :: "grp list \<Rightarrow> row list" where
  "rows_of gl = concat (map snd gl)"

fun named :: "nat \<Rightarrow> grp list list \<Rightarrow> (string \<times> row list) list" where
  "named i [] = []"
| "named i (gl # gss) = (''partition'' @ str_nat i, rows_of gl) # named (Suc i) gss"

definition gstep :: "int \<Rightarrow> grp list list \<times> grp list \<Rightarrow> grp \<Rightarrow> grp list list \<times> grp list" where
  "gstep chunk_size p g =
     (case p of (sealed, cur) \<Rightarrow>
        if int (length cur) + 1 > chunk_size then (sealed @ [cur], [g]) else (sealed, cur @ [g]))"

definition layout :: "int \<Rightarrow> grp list \<Rightarrow> grp list list" where
  "layout chunk_size gs =
     (case foldl (gstep chunk_size) ([], []) gs of (sealed, cur) \<Rightarrow> sealed @ [cur])"

definition rel :: "chunk_state \<Rightarrow> grp list list \<Rightarrow> grp list \<Rightarrow> bool" where
  "rel st sealed cur \<longleftrightarrow>
     chunk_index st = length sealed \<and> datasets st = named 0 sealed
     \<and> current_chunk st = rows_of cur \<and> audio_ids_so_far st = fst ` set cur"

text \<open>
  Following the specification's words, the order in which values are first encountered in
  a sequence.
\<close>

fun first_seen :: "'a list \<Rightarrow> 'a list" where
  "first_seen [] = []"
| "first_seen (x # xs) = x # filter (\<lambda>y. y \<noteq> x) (first_seen xs)"

text \<open>Example data: rows of three groups and two small directory walks.\<close>

abbreviation row_A_x :: row where
  "row_A_x \<equiv> \<lparr>audio = ''data/A/F01_x.flac'', audio_id = ''A'', real_or_fake = ''F01''\<rparr>"

abbreviation row_A_y :: row where
  "row_A_y \<equiv> \<lparr>audio = ''data/A/F01_y.flac'', audio_id = ''A'', real_or_fake = ''F01''\<rparr>"

abbreviation row_B :: row where
  "row_B \<equiv> \<lparr>audio = ''data/B/real.flac'', audio_id = ''B'', real_or_fake = ''R''\<rparr>"

abbreviation row_C :: row where
  "row_C \<equiv> \<lparr>audio = ''data/C/c.flac'', audio_id = ''C'', real_or_fake = ''R''\<rparr>"

abbreviation example_walk :: "walk_entry list" where
  "example_walk \<equiv>
     [(''data'', [''A'', ''B''], []),
      (''data/A'', [], [''F01_x.flac'', ''F01_y.flac'']),
      (''data/B'', [], [''real.flac''])]"

abbreviation excluded_walk :: "walk_entry list" where
  "excluded_walk \<equiv> [(''data/SSB0001'', [], [''x.flac'']), (''data/B'', [], [''real.flac''])]"

section \<open>Claims about \<open>find_best_chunk_size\<close>\<close>















section \<open>The chunk loop works on whole groups\<close>

lemma named_append: "named i (xs @ ys) = named i xs @ named (i + length xs) ys"
  by (induction xs arbitrary: i) auto

lemma named_snoc: "named 0 (xs @ [gl]) = named 0 xs @ [(''partition'' @ str_nat (length xs), rows_of gl)]"
  by (simp add: named_append)

lemma rows_of_snoc: "rows_of (cur @ [(k, rows)]) = rows_of cur @ rows"
  by (simp add: rows_of_def)

lemma chunk_step_rel:
  assumes "rel st sealed cur" "distinct (map fst cur)" "fst g \<notin> fst ` set cur"
  shows "case gstep cs (sealed, cur) g of (sealed', cur') \<Rightarrow> rel (chunk_step cs st g) sealed' cur'"
proof -
  obtain k rows where g: "g = (k, rows)" by (cases g)
  have c: "card (fst ` set cur) = length cur"
    using assms(2) by (metis distinct_card length_map set_map)
  show ?thesis
    using assms(1,3) unfolding g rel_def chunk_step_def gstep_def save_chunk_def
    by (simp add: c named_snoc rows_of_snoc rows_of_def Let_def)
qed

lemma foldl_chunk_step_rel:
  assumes "rel st sealed cur" "distinct (map fst (cur @ gs))"
  shows "case foldl (gstep cs) (sealed, cur) gs of (sealed', cur') \<Rightarrow>
           rel (foldl (chunk_step cs) st gs) sealed' cur'"
  using assms
proof (induction gs arbitrary: st sealed cur)
  case Nil
  then show ?case by simp
next
  case (Cons g gs)
  obtain sealed1 cur1 where p: "gstep cs (sealed, cur) g = (sealed1, cur1)" by (cases "gstep cs (sealed, cur) g")
  have d: "distinct (map fst cur)" "fst g \<notin> fst ` set cur" using Cons.prems(2) by auto
  have r1: "rel (chunk_step cs st g) sealed1 cur1"
    using chunk_step_rel [OF Cons.prems(1) d, of cs] p by simp
  have "cur1 = [g] \<or> cur1 = cur @ [g]" using p by (auto simp: gstep_def split: if_splits)
  moreover have "distinct (map fst ([g] @ gs))" "distinct (map fst ((cur @ [g]) @ gs))"
    using Cons.prems(2) by simp_all
  ultimately have "distinct (map fst (cur1 @ gs))" by metis
  from Cons.IH [OF r1 this] show ?case by (simp add: p)
qed

section \<open>Properties of the groups\<close>

lemma groupby_audio_id_eq: "df \<noteq> [] \<Longrightarrow> groupby_audio_id df = Inr (group_rows df)"
  by (simp add: groupby_audio_id_def)

lemma group_rows_keys: "map fst (group_rows df) = sort (remdups (map audio_id df))"
  by (simp add: group_rows_def comp_def)

lemma group_rows_distinct: "distinct (map fst (group_rows df))"
  by (simp add: group_rows_keys)

lemma group_rows_key_set: "fst ` set (group_rows df) = audio_id ` set df"
proof -
  have "fst ` set (group_rows df) = set (map fst (group_rows df))" by simp
  also have "\<dots> = audio_id ` set df" by (simp only: group_rows_keys) simp
  finally show ?thesis .
qed

lemma group_rows_nonempty: "df \<noteq> [] \<Longrightarrow> group_rows df \<noteq> []"
proof -
  assume "df \<noteq> []"
  then have "audio_id ` set df \<noteq> {}" by simp
  then have "fst ` set (group_rows df) \<noteq> {}" unfolding group_rows_key_set .
  then show ?thesis by auto
qed

lemma group_rows_member:
  assumes "(k, rows) \<in> set (group_rows df)"
  shows "rows = filter (\<lambda>r. audio_id r = k) df" "rows \<noteq> []" "audio_id ` set rows = {k}"
proof -
  show r: "rows = filter (\<lambda>r. audio_id r = k) df" using assms by (auto simp: group_rows_def)
  have "k \<in> fst ` set (group_rows df)" using assms by force
  then have "k \<in> audio_id ` set df" by (simp only: group_rows_key_set)
  then obtain x where x: "x \<in> set df" "audio_id x = k" by auto
  then have "x \<in> set rows" using r by simp
  then show "rows \<noteq> []" by auto
  show "audio_id ` set rows = {k}" using \<open>x \<in> set rows\<close> x r by auto
qed

lemma rows_of_ids:
  assumes "set gl \<subseteq> set (group_rows df)"
  shows "audio_id ` set (rows_of gl) = fst ` set gl"
  using assms
proof (induction gl)
  case Nil
  then show ?case by (simp add: rows_of_def)
next
  case (Cons g gl)
  obtain k rows where g: "g = (k, rows)" by (cases g)
  then have "(k, rows) \<in> set (group_rows df)" using Cons.prems by simp
  then have "audio_id ` set rows = {k}" by (rule group_rows_member(3))
  moreover have "audio_id ` set (rows_of gl) = fst ` set gl" using Cons by simp
  ultimately show ?case by (simp add: rows_of_def g image_Un)
qed

lemma rows_of_nonempty:
  assumes "set gl \<subseteq> set (group_rows df)" "gl \<noteq> []"
  shows "rows_of gl \<noteq> []"
proof -
  obtain k rows gl' where g: "gl = (k, rows) # gl'" using assms(2) by (cases gl) auto
  then have "rows \<noteq> []" using assms(1) group_rows_member(2) by auto
  then show ?thesis by (simp add: rows_of_def g)
qed

section \<open>Properties of the layout\<close>

lemma gstep_concat:
  "gstep cs (sealed, cur) g = (s', c') \<Longrightarrow> concat s' @ c' = concat sealed @ cur @ [g]"
  by (auto simp: gstep_def split: if_splits)

lemma foldl_gstep_concat:
  "foldl (gstep cs) (sealed, cur) gs = (s', c') \<Longrightarrow> concat s' @ c' = concat sealed @ cur @ gs"
proof (induction gs arbitrary: sealed cur)
  case Nil
  then show ?case by simp
next
  case (Cons g gs)
  obtain s1 c1 where p: "gstep cs (sealed, cur) g = (s1, c1)" by (cases "gstep cs (sealed, cur) g")
  from Cons.prems have "foldl (gstep cs) (s1, c1) gs = (s', c')" by (simp add: p)
  then have "concat s' @ c' = concat s1 @ c1 @ gs" by (rule Cons.IH)
  then show ?case using gstep_concat [OF p] by simp
qed

lemma foldl_gstep_cur:
  "gs \<noteq> [] \<Longrightarrow> snd (foldl (gstep cs) p gs) \<noteq> []"
proof (induction gs rule: rev_induct)
  case Nil
  then show ?case by simp
next
  case (snoc g gs)
  obtain s c where "foldl (gstep cs) p gs = (s, c)" by (cases "foldl (gstep cs) p gs")
  then have "foldl (gstep cs) p (gs @ [g]) = gstep cs (s, c) g" by simp
  also have "snd (gstep cs (s, c) g) \<noteq> []" by (simp add: gstep_def)
  finally show ?case .
qed

lemma foldl_gstep_sizes:
  assumes "1 \<le> cs" "\<forall>gl\<in>set sealed. int (length gl) = cs" "int (length cur) \<le> cs"
    and "foldl (gstep cs) (sealed, cur) gs = (s', c')"
  shows "(\<forall>gl\<in>set s'. int (length gl) = cs) \<and> int (length c') \<le> cs"
  using assms(2-)
proof (induction gs arbitrary: sealed cur)
  case Nil
  then show ?case by simp
next
  case (Cons g gs)
  obtain s1 c1 where p: "gstep cs (sealed, cur) g = (s1, c1)" by (cases "gstep cs (sealed, cur) g")
  have a: "\<forall>gl\<in>set s1. int (length gl) = cs" and b: "int (length c1) \<le> cs"
    using p Cons.prems(1,2) assms(1) by (auto simp: gstep_def split: if_splits)
  from Cons.prems(3) have "foldl (gstep cs) (s1, c1) gs = (s', c')" by (simp add: p)
  with a b show ?case by (rule Cons.IH)
qed

lemma layout_concat: "concat (layout cs gs) = gs"
proof -
  obtain s c where p: "foldl (gstep cs) ([], []) gs = (s, c)" by (cases "foldl (gstep cs) ([], []) gs")
  from foldl_gstep_concat [OF p] show ?thesis by (simp add: layout_def p)
qed

lemma layout_last: "gs \<noteq> [] \<Longrightarrow> last (layout cs gs) \<noteq> []"
proof -
  assume "gs \<noteq> []"
  then have "snd (foldl (gstep cs) ([], []) gs) \<noteq> []" by (rule foldl_gstep_cur)
  moreover obtain s c where p: "foldl (gstep cs) ([], []) gs = (s, c)"
    by (cases "foldl (gstep cs) ([], []) gs")
  ultimately show ?thesis by (simp add: layout_def p)
qed

lemma layout_nonempty: "layout cs gs \<noteq> []"
  by (simp add: layout_def split: prod.splits)

lemma layout_sizes:
  assumes "1 \<le> cs"
  shows "\<forall>gl\<in>set (butlast (layout cs gs)). int (length gl) = cs"
    and "int (length (last (layout cs gs))) \<le> cs"
proof -
  obtain s c where p: "foldl (gstep cs) ([], []) gs = (s, c)" by (cases "foldl (gstep cs) ([], []) gs")
  have "(\<forall>gl\<in>set s. int (length gl) = cs) \<and> int (length c) \<le> cs"
    using assms _ _ p by (rule foldl_gstep_sizes) (use assms in simp_all)
  then show "\<forall>gl\<in>set (butlast (layout cs gs)). int (length gl) = cs"
    and "int (length (last (layout cs gs))) \<le> cs"
    by (simp_all add: layout_def p)
qed

lemma layout_subset: "gl \<in> set (layout cs gs) \<Longrightarrow> set gl \<subseteq> set gs"
proof -
  assume "gl \<in> set (layout cs gs)"
  then have "set gl \<subseteq> set (concat (layout cs gs))" by auto
  then show ?thesis by (simp only: layout_concat)
qed

section \<open>The plan is the named layout of the groups\<close>

lemma create_chunks_layout:
  assumes "df \<noteq> []"
  shows "create_chunks df cs = Inr (named 0 (layout cs (group_rows df)))"
proof -
  let ?gs = "group_rows df"
  obtain s c where p: "foldl (gstep cs) ([], []) ?gs = (s, c)" by (cases "foldl (gstep cs) ([], []) ?gs")
  have r0: "rel initial_state [] []" by (simp add: rel_def initial_state_def rows_of_def)
  have "distinct (map fst ([] @ ?gs))" by (simp add: group_rows_distinct)
  from foldl_chunk_step_rel [OF r0 this, of cs]
  have r: "rel (foldl (chunk_step cs) initial_state ?gs) s c" by (simp add: p)
  have lay: "layout cs ?gs = s @ [c]" by (simp add: layout_def p)
  have "c \<in> set (layout cs ?gs)" by (simp add: lay)
  then have sub: "set c \<subseteq> set ?gs" by (rule layout_subset)
  have "c \<noteq> []" using layout_last [of ?gs cs] group_rows_nonempty [OF assms] by (simp add: lay)
  with sub have ne: "rows_of c \<noteq> []" by (rule rows_of_nonempty)
  have "datasets (save_last (foldl (chunk_step cs) initial_state ?gs)) = named 0 (s @ [c])"
    using r ne by (simp add: rel_def save_last_def save_chunk_def named_snoc)
  then show ?thesis
    by (simp add: create_chunks_def groupby_audio_id_eq [OF assms] lay)
qed

lemma create_chunks_empty: "create_chunks [] cs = Inl KeyError"
  by (simp add: create_chunks_def groupby_audio_id_def)

lemma named_length: "length (named i gss) = length gss"
  by (induction gss arbitrary: i) auto

lemma named_fst: "map fst (named i gss) = map (\<lambda>j. ''partition'' @ str_nat j) [i..<i + length gss]"
proof (induction gss arbitrary: i)
  case Nil
  then show ?case by simp
next
  case (Cons gl gss)
  have "[i..<i + length (gl # gss)] = i # [Suc i..<Suc i + length gss]"
    by (subst upt_rec) simp
  then show ?case by (simp add: Cons.IH)
qed

lemma named_snd: "map snd (named i gss) = map rows_of gss"
  by (induction gss arbitrary: i) auto

lemma concat_rows_of: "concat (map rows_of gss) = rows_of (concat gss)"
  by (induction gss) (auto simp: rows_of_def)

lemma named_chunk_ids:
  "\<forall>gl\<in>set gss. set gl \<subseteq> set (group_rows df) \<Longrightarrow>
     map chunk_ids (named i gss) = map (\<lambda>gl. fst ` set gl) gss"
  by (induction gss arbitrary: i) (simp_all add: chunk_ids_def rows_of_ids [where df = df])

lemma disjoint_blocks:
  "distinct (map f (concat xss)) \<Longrightarrow> i < j \<Longrightarrow> j < length xss \<Longrightarrow>
     f ` set (xss ! i) \<inter> f ` set (xss ! j) = {}"
proof (induction xss arbitrary: i j)
  case Nil
  then show ?case by simp
next
  case (Cons xs xss)
  obtain j' where j: "j = Suc j'" using Cons.prems(2) by (cases j) auto
  have d: "distinct (map f (concat xss))" and e: "f ` set xs \<inter> f ` set (concat xss) = {}"
    using Cons.prems(1) by auto
  show ?case
  proof (cases i)
    case 0
    have "xss ! j' \<in> set xss" using Cons.prems(3) j by simp
    then have "set (xss ! j') \<subseteq> set (concat xss)" by auto
    then have "f ` set (xss ! j') \<subseteq> f ` set (concat xss)" by (rule image_mono)
    with e have "f ` set xs \<inter> f ` set (xss ! j') = {}" by blast
    then show ?thesis using 0 j by simp
  next
    case (Suc i')
    then have "i' < j'" "j' < length xss" using Cons.prems(2,3) j by simp_all
    with d have "f ` set (xss ! i') \<inter> f ` set (xss ! j') = {}" by (rule Cons.IH)
    then show ?thesis using Suc j by simp
  qed
qed

lemma plan_chunk_ids:
  assumes "df \<noteq> []"
  shows "map chunk_ids (named 0 (layout cs (group_rows df)))
           = map (\<lambda>gl. fst ` set gl) (layout cs (group_rows df))"
proof (rule named_chunk_ids [where df = df], rule ballI)
  fix gl assume "gl \<in> set (layout cs (group_rows df))"
  then show "set gl \<subseteq> set (group_rows df)" by (rule layout_subset)
qed

lemma block_distinct:
  "distinct (map f (concat xss)) \<Longrightarrow> xs \<in> set xss \<Longrightarrow> distinct (map f xs)"
  by (induction xss) auto

lemma concat_length_const:
  "\<forall>xs\<in>set xss. length xs = c \<Longrightarrow> length (concat xss) = length xss * c"
  by (induction xss) auto

lemma group_rows_length: "length (group_rows df) = card (audio_id ` set df)"
proof -
  have "length (group_rows df) = length (remdups (map audio_id df))" by (simp add: group_rows_def)
  also have "\<dots> = card (set (map audio_id df))" by (rule length_remdups_card_conv)
  finally show ?thesis by simp
qed

lemma layout_block_card:
  assumes "gl \<in> set (layout cs (group_rows df))"
  shows "card (fst ` set gl) = length gl"
proof -
  have "distinct (map fst (concat (layout cs (group_rows df))))"
    by (simp only: layout_concat group_rows_distinct)
  then have "distinct (map fst gl)" using assms by (rule block_distinct)
  then have "card (set (map fst gl)) = length (map fst gl)" by (rule distinct_card)
  then show ?thesis by simp
qed

lemma layout_count:
  assumes "1 \<le> cs"
  shows "int (length gs) = int (length (layout cs gs) - 1) * cs + int (length (last (layout cs gs)))"
proof -
  let ?L = "layout cs gs"
  have L: "?L = butlast ?L @ [last ?L]" using layout_nonempty [of cs gs] by simp
  have "\<forall>gl\<in>set (butlast ?L). length gl = nat cs"
    using layout_sizes(1) [OF assms, of gs] by auto
  then have b: "length (concat (butlast ?L)) = length (butlast ?L) * nat cs"
    by (rule concat_length_const)
  have "length gs = length (concat ?L)" by (simp only: layout_concat)
  also have "\<dots> = length (concat (butlast ?L @ [last ?L]))" using L by simp
  also have "\<dots> = length (butlast ?L) * nat cs + length (last ?L)" using b by simp
  finally have "length gs = (length ?L - 1) * nat cs + length (last ?L)" by simp
  then have "int (length gs) = int ((length ?L - 1) * nat cs + length (last ?L))" by simp
  also have "\<dots> = int (length ?L - 1) * cs + int (length (last ?L))" using assms by simp
  finally show ?thesis .
qed

lemma partial_block_not_dvd:
  fixes cs :: int
  assumes "0 < m" "m \<le> cs" "n = q * cs + m"
  shows "m < cs \<longleftrightarrow> \<not> cs dvd n"
proof
  assume lt: "m < cs"
  show "\<not> cs dvd n"
  proof
    assume "cs dvd n"
    then have "cs dvd q * cs + m" using assms(3) by simp
    then have "cs dvd m" by (simp add: dvd_add_right_iff)
    then have "cs \<le> m" using assms(1) by (rule zdvd_imp_le)
    with lt show False by simp
  qed
next
  assume "\<not> cs dvd n"
  then have "m \<noteq> cs" using assms(3) by auto
  with assms(2) show "m < cs" by simp
qed

lemma create_chunks_InrD:
  assumes "create_chunks df cs = Inr plan"
  shows "df \<noteq> []" "plan = named 0 (layout cs (group_rows df))"
proof -
  show ne: "df \<noteq> []" using assms by (auto simp: create_chunks_empty)
  show "plan = named 0 (layout cs (group_rows df))"
    using assms create_chunks_layout [OF ne, of cs] by simp
qed

lemma plan_nth_ids:
  assumes "df \<noteq> []" "n < length (layout cs (group_rows df))"
  shows "chunk_ids (named 0 (layout cs (group_rows df)) ! n) = fst ` set (layout cs (group_rows df) ! n)"
proof -
  let ?L = "layout cs (group_rows df)"
  have "chunk_ids (named 0 ?L ! n) = map chunk_ids (named 0 ?L) ! n"
    using assms(2) by (simp add: named_length)
  also have "\<dots> = map (\<lambda>gl. fst ` set gl) ?L ! n" by (simp only: plan_chunk_ids [OF assms(1)])
  also have "\<dots> = fst ` set (?L ! n)" using assms(2) by simp
  finally show ?thesis .
qed

lemma plan_last_ids:
  assumes "df \<noteq> []"
  shows "chunk_ids (last (named 0 (layout cs (group_rows df)))) = fst ` set (last (layout cs (group_rows df)))"
proof -
  let ?L = "layout cs (group_rows df)"
  have ne: "?L \<noteq> []" by (rule layout_nonempty)
  then have ne': "named 0 ?L \<noteq> []" using named_length [of 0 ?L] by auto
  have "chunk_ids (last (named 0 ?L)) = last (map chunk_ids (named 0 ?L))"
    using ne' by (simp add: last_map)
  also have "\<dots> = last (map (\<lambda>gl. fst ` set gl) ?L)" by (simp only: plan_chunk_ids [OF assms])
  also have "\<dots> = fst ` set (last ?L)" using ne by (simp add: last_map)
  finally show ?thesis .
qed

lemma layout_all_nonempty:
  assumes "1 \<le> cs" "gs \<noteq> []" "gl \<in> set (layout cs gs)"
  shows "gl \<noteq> []"
proof -
  let ?L = "layout cs gs"
  have "?L = butlast ?L @ [last ?L]" using layout_nonempty [of cs gs] by simp
  then have "set ?L = set (butlast ?L) \<union> {last ?L}" by (metis set_append list.set(1,2) Un_insert_right sup_bot.right_neutral)
  then consider "gl \<in> set (butlast ?L)" | "gl = last ?L" using assms(3) by auto
  then show ?thesis
  proof cases
    case 1
    then have "int (length gl) = cs" using layout_sizes(1) [OF assms(1), of gs] by blast
    then show ?thesis using assms(1) by auto
  next
    case 2
    then show ?thesis using layout_last [OF assms(2), of cs] by simp
  qed
qed

section \<open>The rows of the groups are the stably sorted rows\<close>

lemma filter_blocks:
  "distinct ks \<Longrightarrow>
     filter (\<lambda>r. f r = k) (concat (map (\<lambda>k'. filter (\<lambda>r. f r = k') df) ks))
       = (if k \<in> set ks then filter (\<lambda>r. f r = k) df else [])"
proof (induction ks)
  case Nil
  then show ?case by simp
next
  case (Cons k' ks)
  have a: "filter (\<lambda>r. f r = k' \<and> f r = k) df
             = (if k = k' then filter (\<lambda>r. f r = k) df else [])"
    by (induction df) auto
  show ?case using Cons by (auto simp: a)
qed

lemma mset_two_filters:
  "k \<notin> set ks \<Longrightarrow>
     mset (filter (\<lambda>r. f r = k) df) + mset (filter (\<lambda>r. f r \<in> set ks) df)
       = mset (filter (\<lambda>r. f r = k \<or> f r \<in> set ks) df)"
  by (induction df) auto

lemma mset_blocks:
  "distinct ks \<Longrightarrow>
     mset (concat (map (\<lambda>k. filter (\<lambda>r. f r = k) df) ks)) = mset (filter (\<lambda>r. f r \<in> set ks) df)"
proof (induction ks)
  case Nil
  then show ?case by simp
next
  case (Cons k ks)
  then have "k \<notin> set ks" "distinct ks" by simp_all
  then show ?case using Cons.IH mset_two_filters [of k ks f df] by simp
qed

lemma sorted_const: "\<forall>x\<in>set xs. x = k \<Longrightarrow> sorted xs"
  by (induction xs) auto

lemma sorted_blocks:
  "sorted ks \<Longrightarrow> sorted (map f (concat (map (\<lambda>k. filter (\<lambda>r. f r = k) df) ks)))"
proof (induction ks)
  case Nil
  then show ?case by simp
next
  case (Cons k ks)
  have "sorted (map f (filter (\<lambda>r. f r = k) df))" by (rule sorted_const [of _ k]) auto
  moreover have "sorted (map f (concat (map (\<lambda>k. filter (\<lambda>r. f r = k) df) ks)))"
    using Cons by simp
  moreover have "\<forall>x\<in>set (map f (filter (\<lambda>r. f r = k) df)).
      \<forall>y\<in>set (map f (concat (map (\<lambda>k. filter (\<lambda>r. f r = k) df) ks))). x \<le> y"
    using Cons.prems by auto
  ultimately show ?case by (simp add: sorted_append)
qed

lemma group_rows_stable_sort: "rows_of (group_rows df) = sort_key audio_id df"
proof -
  let ?ks = "sort (remdups (map audio_id df))"
  let ?ys = "concat (map (\<lambda>k. filter (\<lambda>r. audio_id r = k) df) ?ks)"
  have ys: "rows_of (group_rows df) = ?ys" by (simp add: rows_of_def group_rows_def comp_def)
  have d: "distinct ?ks" and s: "sorted ?ks" and ks: "set ?ks = audio_id ` set df" by simp_all
  have "mset ?ys = mset (filter (\<lambda>r. audio_id r \<in> set ?ks) df)" using d by (rule mset_blocks)
  also have "filter (\<lambda>r. audio_id r \<in> set ?ks) df = df" by (simp only: ks) simp
  finally have m: "mset ?ys = mset df" .
  have st: "\<And>x. x \<in> set ?ys \<Longrightarrow>
      filter (\<lambda>r. audio_id x = audio_id r) ?ys = filter (\<lambda>r. audio_id x = audio_id r) df"
  proof -
    fix x assume "x \<in> set ?ys"
    then have "x \<in># mset ?ys" by simp
    then have "x \<in> set df" by (simp only: m) simp
    then have k: "audio_id x \<in> set ?ks" by (simp only: ks) simp
    have "filter (\<lambda>r. audio_id r = audio_id x) ?ys = filter (\<lambda>r. audio_id r = audio_id x) df"
      using filter_blocks [OF d, of audio_id "audio_id x" df] k by simp
    then show "filter (\<lambda>r. audio_id x = audio_id r) ?ys = filter (\<lambda>r. audio_id x = audio_id r) df"
      by (simp add: eq_commute)
  qed
  have "sorted (map audio_id ?ys)" using s by (rule sorted_blocks)
  with m st have "sort_key audio_id df = ?ys" by (rule properties_for_sort_key)
  then show ?thesis by (simp only: ys)
qed

lemma plan_rows:
  assumes "create_chunks df cs = Inr plan"
  shows "concat (map snd plan) = sort_key audio_id df"
proof -
  have "concat (map snd plan) = rows_of (concat (layout cs (group_rows df)))"
    by (simp add: create_chunks_InrD(2) [OF assms] named_snd concat_rows_of)
  then show ?thesis by (simp only: layout_concat group_rows_stable_sort)
qed

section \<open>Properties of \<open>create_df\<close>\<close>

lemma visit_file_eq:
  "visit_file root (data, printed) file =
     (if retained root file then (data @ [item_row root file], printed)
      else if skipped root file then (data, printed @ [''Skipping '' @ item_id root file])
      else (data, printed))"
  by (simp add: visit_file_def retained_def skipped_def item_row_def item_id_def Let_def)

lemma foldl_visit_file:
  "foldl (visit_file root) (data, printed) files =
     (data @ map (item_row root) (filter (retained root) files),
      printed @ map (\<lambda>f. ''Skipping '' @ item_id root f) (filter (skipped root) files))"
proof (induction files arbitrary: data printed)
  case Nil
  then show ?case by simp
next
  case (Cons f files)
  have ns: "retained root f \<Longrightarrow> \<not> skipped root f" by (simp add: retained_def skipped_def)
  show ?case by (simp only: foldl_Cons visit_file_eq) (simp add: Cons.IH ns)
qed

lemma visit_dir_eq:
  "visit_dir (data, printed) entry = (data @ dir_rows entry, printed @ dir_prints entry)"
  by (cases entry) (simp add: visit_dir_def dir_rows_def dir_prints_def foldl_visit_file)

lemma foldl_visit_dir:
  "foldl visit_dir (data, printed) walk =
     (data @ concat (map dir_rows walk), printed @ concat (map dir_prints walk))"
  by (induction walk arbitrary: data printed) (simp_all add: visit_dir_eq)

lemma create_df_eq:
  "create_df walk = (concat (map dir_rows walk), concat (map dir_prints walk))"
  by (simp add: create_df_def foldl_visit_dir)

lemma create_df_row:
  assumes "r \<in> set (fst (create_df walk))"
  shows "\<exists>root dirs files file. (root, dirs, files) \<in> set walk \<and> file \<in> set files
           \<and> retained root file \<and> r = item_row root file"
proof -
  from assms obtain e where e: "e \<in> set walk" "r \<in> set (dir_rows e)"
    by (auto simp: create_df_eq)
  obtain root dirs files where p: "e = (root, dirs, files)" by (cases e)
  from e(2) obtain fl where "fl \<in> set files" "retained root fl" "r = item_row root fl"
    by (auto simp: p dir_rows_def)
  with e(1) p show ?thesis by blast
qed

lemma dir_rows_flac_only: "dir_rows (flac_only e) = dir_rows e"
proof -
  obtain root dirs files where p: "e = (root, dirs, files)" by (cases e)
  have "filter (retained root) (filter (\<lambda>f. endswith f ''.flac'') files) = filter (retained root) files"
    by (induction files) (auto simp: retained_def)
  then show ?thesis by (simp add: p flac_only_def dir_rows_def)
qed

lemma dir_prints_flac_only: "dir_prints (flac_only e) = dir_prints e"
proof -
  obtain root dirs files where p: "e = (root, dirs, files)" by (cases e)
  have "filter (skipped root) (filter (\<lambda>f. endswith f ''.flac'') files) = filter (skipped root) files"
    by (induction files) (auto simp: skipped_def)
  then show ?thesis by (simp add: p flac_only_def dir_prints_def)
qed

lemma dir_rows_drop_excluded: "dir_rows (drop_excluded e) = dir_rows e"
proof -
  obtain root dirs files where p: "e = (root, dirs, files)" by (cases e)
  have "filter (retained root) (filter (\<lambda>f. \<not> startswith (item_id root f) ''SSB'') files)
          = filter (retained root) files"
    by (induction files) (auto simp: retained_def)
  then show ?thesis by (simp add: p drop_excluded_def dir_rows_def)
qed

lemma endswith_append:
  assumes "endswith b p"
  shows "endswith (a @ b) p"
proof -
  have l: "length p \<le> length b" and d: "drop (length b - length p) b = p"
    using assms by (simp_all add: endswith_def)
  have "length (a @ b) - length p = length a + (length b - length p)" using l by simp
  then have "drop (length (a @ b) - length p) (a @ b) = drop (length b - length p) b" by simp
  with l d show ?thesis by (simp add: endswith_def)
qed

lemma endswith_path_join:
  assumes "endswith file p"
  shows "endswith (path_join root file) p"
proof -
  have "endswith (root @ file) p" "endswith ((root @ [sep]) @ file) p"
    using assms by (rule endswith_append)+
  then show ?thesis using assms by (simp add: path_join_def)
qed

lemma basename_no_sep: "sep \<notin> set f \<Longrightarrow> basename (a @ [sep] @ f) = f"
proof -
  assume a: "sep \<notin> set f"
  have "\<And>x. x \<in> set (rev f) \<Longrightarrow> x \<noteq> sep" using a by auto
  then have "takeWhile (\<lambda>c. c \<noteq> sep) (rev f @ sep # rev a)
               = rev f @ takeWhile (\<lambda>c. c \<noteq> sep) (sep # rev a)"
    by (rule takeWhile_append2)
  then have "takeWhile (\<lambda>c. c \<noteq> sep) (rev f @ sep # rev a) = rev f" by simp
  then show ?thesis by (simp add: basename_def)
qed

lemma basename_plain: "sep \<notin> set f \<Longrightarrow> basename f = f"
proof -
  assume a: "sep \<notin> set f"
  have "\<forall>x\<in>set (rev f). x \<noteq> sep" using a by auto
  then have "takeWhile (\<lambda>c. c \<noteq> sep) (rev f) = rev f" by (simp only: takeWhile_eq_all_conv)
  then show ?thesis unfolding basename_def by (simp only: rev_rev_ident)
qed

lemma basename_path_join:
  assumes "sep \<notin> set f"
  shows "basename (path_join root f) = f"
proof -
  have ns: "\<not> startswith f [sep]" using assms by (cases f) (auto simp: startswith_def)
  show ?thesis
  proof (cases "root = []")
    case True
    then show ?thesis using ns assms by (simp add: path_join_def basename_plain)
  next
    case False
    show ?thesis
    proof (cases "endswith root [sep]")
      case True
      then have "drop (length root - 1) root = [sep]" by (simp add: endswith_def)
      then have "root = take (length root - 1) root @ [sep]"
        by (metis append_take_drop_id)
      then obtain a where a: "root = a @ [sep]" ..
      have "basename (a @ [sep] @ f) = f" using assms by (rule basename_no_sep)
      then show ?thesis using ns True by (simp add: path_join_def a)
    next
      case nsl: False
      have "basename (root @ [sep] @ f) = f" using assms by (rule basename_no_sep)
      then show ?thesis using ns nsl False by (simp add: path_join_def)
    qed
  qed
qed

section \<open>Evaluation rules and consequences for the plan\<close>

lemmas chunk_eval = create_chunks_def groupby_audio_id_def group_rows_def chunk_step_def save_last_def
  save_chunk_def initial_state_def digit_char_def

lemmas df_eval = create_df_def visit_dir_def visit_file_def endswith_def startswith_def
  path_join_def basename_def dirname_def sep_def

lemma plan_row_in_df:
  assumes "create_chunks df cs = Inr plan" "c \<in> set plan" "r \<in> set (snd c)"
  shows "r \<in> set df"
proof -
  have "r \<in> set (concat (map snd plan))" using assms(2,3) by auto
  then have "r \<in> set (sort_key audio_id df)" by (simp only: plan_rows [OF assms(1)])
  then show ?thesis by simp
qed

lemma plan_names:
  assumes "create_chunks df cs = Inr plan"
  shows "map fst plan = map (\<lambda>i. ''partition'' @ str_nat i) [0..<length plan]"
  using named_fst [of 0 "layout cs (group_rows df)"]
  by (simp add: create_chunks_InrD(2) [OF assms] named_length)

lemma item_row_simps:
  "audio (item_row root fl) = path_join root fl"
  "audio_id (item_row root fl) = item_id root fl"
  "real_or_fake (item_row root fl) = (if startswith fl ''F0'' then take 3 fl else ''R'')"
  by (simp_all add: item_row_def)

lemma drop_excluded_same_rows: "fst (create_df (map drop_excluded walk)) = fst (create_df walk)"
  by (simp add: create_df_eq comp_def dir_rows_drop_excluded)

lemma flac_only_same_df: "create_df (map flac_only walk) = create_df walk"
  by (simp add: create_df_eq comp_def dir_rows_flac_only dir_prints_flac_only)

lemma create_df_row_not_excluded:
  assumes "r \<in> set (fst (create_df walk))"
  shows "\<not> startswith (audio_id r) ''SSB''"
proof -
  from create_df_row [OF assms] obtain root fl where "retained root fl" "r = item_row root fl"
    by blast
  then show ?thesis by (simp add: retained_def item_row_simps)
qed

lemma create_df_row_flac:
  assumes "r \<in> set (fst (create_df walk))"
  shows "endswith (audio r) ''.flac''"
proof -
  from create_df_row [OF assms] obtain root fl where "retained root fl" "r = item_row root fl"
    by blast
  then show ?thesis by (simp add: retained_def item_row_simps endswith_path_join)
qed

section \<open>Claims about the chunk loop\<close>

text \<open>
  Claim C1: for every data frame and every chunk size, the plan produced by the chunk loop
  covers each group id exactly once: the union of the group ids of all chunks is the set of
  group ids of the data frame, and no group id occurs in two different chunks. A plan is
  produced for every non-empty data frame; on the empty one \<^verbatim>\<open>groupby\<close> raises and there
  is no plan.
\<close>

theorem create_chunks_covers_once:
  "(df = [] \<longrightarrow> create_chunks df chunk_size = Inl KeyError)
   \<and> (df \<noteq> [] \<longrightarrow>
        (\<exists>plan. create_chunks df chunk_size = Inr plan
           \<and> (\<Union>c\<in>set plan. chunk_ids c) = audio_id ` set df
           \<and> (\<forall>i j. i < j \<and> j < length plan
                 \<longrightarrow> chunk_ids (plan ! i) \<inter> chunk_ids (plan ! j) = {})))"
proof (intro conjI impI)
  assume "df = []"
  then show "create_chunks df chunk_size = Inl KeyError" by (simp add: create_chunks_empty)
next
  assume ne: "df \<noteq> []"
  let ?L = "layout chunk_size (group_rows df)"
  let ?plan = "named 0 ?L"
  have ids: "map chunk_ids ?plan = map (\<lambda>gl. fst ` set gl) ?L" using ne by (rule plan_chunk_ids)
  have len: "length ?plan = length ?L" by (rule named_length)
  have "(\<Union>c\<in>set ?plan. chunk_ids c) = \<Union> (set (map chunk_ids ?plan))" by simp
  also have "\<dots> = \<Union> (set (map (\<lambda>gl. fst ` set gl) ?L))" by (simp only: ids)
  also have "\<dots> = fst ` set (concat ?L)" by auto
  also have "\<dots> = audio_id ` set df" by (simp only: layout_concat group_rows_key_set)
  finally have cover: "(\<Union>c\<in>set ?plan. chunk_ids c) = audio_id ` set df" .
  have disj: "\<forall>i j. i < j \<and> j < length ?plan \<longrightarrow> chunk_ids (?plan ! i) \<inter> chunk_ids (?plan ! j) = {}"
  proof (intro allI impI)
    fix i j assume a: "i < j \<and> j < length ?plan"
    then have lt: "i < j" "j < length ?L" "i < length ?L" using len by simp_all
    have nth: "\<And>n. n < length ?L \<Longrightarrow> chunk_ids (?plan ! n) = fst ` set (?L ! n)"
    proof -
      fix n assume n: "n < length ?L"
      then have "chunk_ids (?plan ! n) = map chunk_ids ?plan ! n" using len by simp
      also have "\<dots> = map (\<lambda>gl. fst ` set gl) ?L ! n" by (simp only: ids)
      also have "\<dots> = fst ` set (?L ! n)" using n by simp
      finally show "chunk_ids (?plan ! n) = fst ` set (?L ! n)" .
    qed
    have "distinct (map fst (concat ?L))" by (simp only: layout_concat group_rows_distinct)
    then have "fst ` set (?L ! i) \<inter> fst ` set (?L ! j) = {}" using lt(1,2) by (rule disjoint_blocks)
    then show "chunk_ids (?plan ! i) \<inter> chunk_ids (?plan ! j) = {}" using nth lt by simp
  qed
  have "create_chunks df chunk_size = Inr ?plan" using ne by (rule create_chunks_layout)
  with cover disj show "\<exists>plan. create_chunks df chunk_size = Inr plan
           \<and> (\<Union>c\<in>set plan. chunk_ids c) = audio_id ` set df
           \<and> (\<forall>i j. i < j \<and> j < length plan
                 \<longrightarrow> chunk_ids (plan ! i) \<inter> chunk_ids (plan ! j) = {})" by blast
qed

theorem create_chunks_covers_once_witness:
  "[row_A_x, row_B] \<noteq> []
   \<and> create_chunks [row_A_x, row_B] 1 = Inr [(''partition0'', [row_A_x]), (''partition1'', [row_B])]
   \<and> chunk_ids (''partition0'', [row_A_x]) \<union> chunk_ids (''partition1'', [row_B]) = {''A'', ''B''}
   \<and> chunk_ids (''partition0'', [row_A_x]) \<inter> chunk_ids (''partition1'', [row_B]) = {}"
proof -
  let ?df = "[row_A_x, row_B]"
  let ?plan = "[(''partition0'', [row_A_x]), (''partition1'', [row_B])]"
  have ne: "?df \<noteq> []" by simp
  have ev: "create_chunks ?df 1 = Inr ?plan" by (simp add: chunk_eval)
  from create_chunks_covers_once [of ?df 1, THEN conjunct2, THEN mp, OF ne]
  obtain plan where p: "create_chunks ?df 1 = Inr plan
      \<and> (\<Union>c\<in>set plan. chunk_ids c) = audio_id ` set ?df
      \<and> (\<forall>i j. i < j \<and> j < length plan \<longrightarrow> chunk_ids (plan ! i) \<inter> chunk_ids (plan ! j) = {})" ..
  then have eq: "plan = ?plan" using ev by simp
  note q = p [unfolded eq]
  from q have "(\<Union>c\<in>set ?plan. chunk_ids c) = audio_id ` set ?df" by blast
  then have cov: "chunk_ids (''partition0'', [row_A_x]) \<union> chunk_ids (''partition1'', [row_B]) = {''A'', ''B''}"
    by simp
  from q have "\<forall>i j. i < j \<and> j < length ?plan \<longrightarrow> chunk_ids (?plan ! i) \<inter> chunk_ids (?plan ! j) = {}"
    by blast
  then have "(0::nat) < 1 \<and> 1 < length ?plan \<longrightarrow> chunk_ids (?plan ! 0) \<inter> chunk_ids (?plan ! 1) = {}"
    by blast
  then have dis: "chunk_ids (''partition0'', [row_A_x]) \<inter> chunk_ids (''partition1'', [row_B]) = {}"
    by simp
  from ne ev cov dis show ?thesis by (intro conjI)
qed

text \<open>
  Claim C2: for every data frame and every chunk size, a chunk size being an integer of at
  least 1, every chunk of the plan except the last holds exactly \<open>chunk_size\<close> distinct
  group ids; the last chunk holds at least one and at most \<open>chunk_size\<close>, and it holds
  fewer than \<open>chunk_size\<close> exactly when \<open>chunk_size\<close> does not divide the number of
  distinct group ids of the data frame.
\<close>

theorem create_chunks_full_chunks:
  assumes "1 \<le> chunk_size" and "create_chunks df chunk_size = Inr plan"
  shows "plan \<noteq> []
    \<and> (\<forall>i. i + 1 < length plan \<longrightarrow> int (card (chunk_ids (plan ! i))) = chunk_size)
    \<and> 1 \<le> card (chunk_ids (last plan))
    \<and> int (card (chunk_ids (last plan))) \<le> chunk_size
    \<and> (int (card (chunk_ids (last plan))) < chunk_size
         \<longleftrightarrow> \<not> chunk_size dvd int (card (audio_id ` set df)))"
proof -
  let ?gs = "group_rows df"
  let ?L = "layout chunk_size ?gs"
  note ne = create_chunks_InrD(1) [OF assms(2)]
  note plan = create_chunks_InrD(2) [OF assms(2)]
  have Lne: "?L \<noteq> []" by (rule layout_nonempty)
  have len: "length plan = length ?L" by (simp add: plan named_length)
  have p1: "plan \<noteq> []" using Lne len by auto
  have p2: "\<forall>i. i + 1 < length plan \<longrightarrow> int (card (chunk_ids (plan ! i))) = chunk_size"
  proof (intro allI impI)
    fix i assume "i + 1 < length plan"
    then have i: "i < length (butlast ?L)" "i < length ?L" using len by simp_all
    then have "butlast ?L ! i \<in> set (butlast ?L)" by simp
    then have mem: "?L ! i \<in> set (butlast ?L)" using i(1) by (simp add: nth_butlast)
    then have "?L ! i \<in> set ?L" by (rule in_set_butlastD)
    then have "card (fst ` set (?L ! i)) = length (?L ! i)" by (rule layout_block_card)
    moreover have "int (length (?L ! i)) = chunk_size"
      using layout_sizes(1) [OF assms(1), of ?gs] mem by blast
    ultimately show "int (card (chunk_ids (plan ! i))) = chunk_size"
      by (simp add: plan plan_nth_ids [OF ne i(2)])
  qed
  have lastL: "last ?L \<in> set ?L" using Lne by simp
  have c: "card (chunk_ids (last plan)) = length (last ?L)"
    using layout_block_card [OF lastL] by (simp add: plan plan_last_ids [OF ne])
  have m1: "1 \<le> length (last ?L)"
    using layout_last [OF group_rows_nonempty [OF ne], of chunk_size]
    by (cases "last ?L") simp_all
  have m2: "int (length (last ?L)) \<le> chunk_size" using assms(1) by (rule layout_sizes(2))
  have "int (length ?gs) = int (length ?L - 1) * chunk_size + int (length (last ?L))"
    using assms(1) by (rule layout_count)
  then have n: "int (card (audio_id ` set df)) = int (length ?L - 1) * chunk_size + int (length (last ?L))"
    by (simp only: group_rows_length)
  have "0 < int (length (last ?L))" using m1 by linarith
  then have p5: "int (length (last ?L)) < chunk_size \<longleftrightarrow> \<not> chunk_size dvd int (card (audio_id ` set df))"
    using m2 n by (rule partial_block_not_dvd)
  have q3: "1 \<le> card (chunk_ids (last plan))" unfolding c by (rule m1)
  have q4: "int (card (chunk_ids (last plan))) \<le> chunk_size" unfolding c by (rule m2)
  have q5: "int (card (chunk_ids (last plan))) < chunk_size
         \<longleftrightarrow> \<not> chunk_size dvd int (card (audio_id ` set df))" unfolding c by (rule p5)
  from p1 p2 q3 q4 q5 show ?thesis by (intro conjI)
qed

theorem create_chunks_full_chunks_witness:
  "(1::int) \<le> 2
   \<and> create_chunks [row_A_x, row_B, row_C] 2
       = Inr [(''partition0'', [row_A_x, row_B]), (''partition1'', [row_C])]
   \<and> int (card (chunk_ids (''partition0'', [row_A_x, row_B]))) = 2
   \<and> int (card (chunk_ids (''partition1'', [row_C]))) < 2
   \<and> \<not> (2::int) dvd int (card (audio_id ` set [row_A_x, row_B, row_C]))"
proof -
  let ?df = "[row_A_x, row_B, row_C]"
  let ?plan = "[(''partition0'', [row_A_x, row_B]), (''partition1'', [row_C])]"
  have h: "(1::int) \<le> 2" by simp
  have ev: "create_chunks ?df 2 = Inr ?plan" by (simp add: chunk_eval)
  note t = create_chunks_full_chunks [OF h ev]
  from t have "\<forall>i. i + 1 < length ?plan \<longrightarrow> int (card (chunk_ids (?plan ! i))) = 2" by blast
  then have "0 + 1 < length ?plan \<longrightarrow> int (card (chunk_ids (?plan ! 0))) = 2" by (rule spec)
  then have a: "int (card (chunk_ids (''partition0'', [row_A_x, row_B]))) = 2" by simp
  have l: "int (card (chunk_ids (''partition1'', [row_C]))) < 2" by (simp add: chunk_ids_def)
  from t have "int (card (chunk_ids (last ?plan))) < 2
         \<longleftrightarrow> \<not> 2 dvd int (card (audio_id ` set ?df))" by blast
  then have b: "\<not> (2::int) dvd int (card (audio_id ` set ?df))" using l by simp
  from h ev a l b show ?thesis by (intro conjI)
qed

text \<open>
  Claim C5, as stated, fails on a data frame that meets group \<open>B\<close> before group \<open>A\<close>:
  the first chunk holds group \<open>A\<close>, so the groups are not laid out in the order they are
  first encountered.
\<close>

theorem create_chunks_not_first_encounter:
  "create_chunks [row_B, row_A_x] 1
     = Inr [(''partition0'', [row_A_x]), (''partition1'', [row_B])]
   \<and> first_seen (map audio_id [row_B, row_A_x]) = [''B'', ''A'']
   \<and> first_seen (map audio_id
         (concat (map snd [(''partition0'', [row_A_x]), (''partition1'', [row_B])])))
       = [''A'', ''B'']"
  by (simp add: chunk_eval)

text \<open>
  Claim C5, amended: the chunk loop processes the groups in ascending order of their group
  ids, with the rows of a group in their input order: the rows laid out across the chunks
  of the plan are the rows of the data frame stably sorted by group id.
\<close>

theorem create_chunks_sorted_order:
  assumes "create_chunks df chunk_size = Inr plan"
  shows "concat (map snd plan) = sort_key audio_id df
         \<and> sorted (map audio_id (concat (map snd plan)))
         \<and> (\<forall>k. filter (\<lambda>r. audio_id r = k) (concat (map snd plan)) = filter (\<lambda>r. audio_id r = k) df)"
proof -
  have e: "concat (map snd plan) = sort_key audio_id df" using assms by (rule plan_rows)
  have "sorted (map audio_id (sort_key audio_id df))" by (rule sorted_sort_key)
  moreover have "\<forall>k. filter (\<lambda>r. audio_id r = k) (sort_key audio_id df) = filter (\<lambda>r. audio_id r = k) df"
    by (simp add: sort_key_stable)
  ultimately show ?thesis by (simp only: e) simp
qed

theorem create_chunks_sorted_order_witness:
  "create_chunks [row_B, row_A_x] 1 = Inr [(''partition0'', [row_A_x]), (''partition1'', [row_B])]
   \<and> [row_A_x, row_B] = sort_key audio_id [row_B, row_A_x]
   \<and> sorted [''A'', ''B'']"
proof -
  let ?df = "[row_B, row_A_x]"
  let ?plan = "[(''partition0'', [row_A_x]), (''partition1'', [row_B])]"
  have ev: "create_chunks ?df 1 = Inr ?plan" by (simp add: chunk_eval)
  note t = create_chunks_sorted_order [OF ev]
  from t have "concat (map snd ?plan) = sort_key audio_id ?df" by blast
  then have a: "[row_A_x, row_B] = sort_key audio_id ?df" by simp
  from t have "sorted (map audio_id (concat (map snd ?plan)))" by blast
  then have b: "sorted [''A'', ''B'']" by simp
  from ev a b show ?thesis by (intro conjI)
qed

text \<open>
  Claim C8: for the three items \<open>F01_x.flac\<close> and \<open>F01_y.flac\<close> of group \<open>A\<close> and
  \<open>real.flac\<close> of group \<open>B\<close>, with chunk size 1, the plan is the chunk \<open>partition0\<close> with
  both items of \<open>A\<close> followed by the chunk \<open>partition1\<close> with the item of \<open>B\<close>; the items
  of \<open>A\<close> are labelled \<open>F01\<close> and the item of \<open>B\<close> is labelled \<open>R\<close>. In every plan the
  chunk names are \<open>partition\<close> followed by the index of the chunk, counted from 0.
\<close>

theorem create_chunks_example:
  "create_df example_walk = ([row_A_x, row_A_y, row_B], [])
   \<and> create_chunks [row_A_x, row_A_y, row_B] 1
       = Inr [(''partition0'', [row_A_x, row_A_y]), (''partition1'', [row_B])]
   \<and> (create_chunks df chunk_size = Inr plan
        \<longrightarrow> map fst plan = map (\<lambda>i. ''partition'' @ str_nat i) [0..<length plan])"
proof (intro conjI impI)
  show "create_df example_walk = ([row_A_x, row_A_y, row_B], [])"
    by (simp add: df_eval)
  show "create_chunks [row_A_x, row_A_y, row_B] 1
       = Inr [(''partition0'', [row_A_x, row_A_y]), (''partition1'', [row_B])]"
    by (simp add: chunk_eval)
next
  assume "create_chunks df chunk_size = Inr plan"
  then show "map fst plan = map (\<lambda>i. ''partition'' @ str_nat i) [0..<length plan]"
    by (rule plan_names)
qed

theorem create_chunks_example_witness:
  "create_chunks [row_A_x, row_A_y, row_B] 1
     = Inr [(''partition0'', [row_A_x, row_A_y]), (''partition1'', [row_B])]
   \<and> map fst [(''partition0'', [row_A_x, row_A_y]), (''partition1'', [row_B])]
       = map (\<lambda>i. ''partition'' @ str_nat i)
           [0..<length [(''partition0'', [row_A_x, row_A_y]), (''partition1'', [row_B])]]"
proof -
  let ?df = "[row_A_x, row_A_y, row_B]"
  let ?plan = "[(''partition0'', [row_A_x, row_A_y]), (''partition1'', [row_B])]"
  note t = create_chunks_example [of ?df 1 ?plan]
  from t have ev: "create_chunks ?df 1 = Inr ?plan" by blast
  from t have "create_chunks ?df 1 = Inr ?plan
      \<longrightarrow> map fst ?plan = map (\<lambda>i. ''partition'' @ str_nat i) [0..<length ?plan]" by blast
  then have "map fst ?plan = map (\<lambda>i. ''partition'' @ str_nat i) [0..<length ?plan]"
    using ev by (rule mp)
  with ev show ?thesis by (intro conjI)
qed

text \<open>
  Claim C9: for every non-empty data frame and every chunk size of at least 1, a plan is
  produced and every chunk of it is non-empty: it holds at least one row and at least one
  group id.
\<close>

theorem create_chunks_no_empty_chunk:
  assumes "df \<noteq> []" and "1 \<le> chunk_size"
  shows "\<exists>plan. create_chunks df chunk_size = Inr plan \<and> plan \<noteq> []
           \<and> (\<forall>c\<in>set plan. snd c \<noteq> [] \<and> chunk_ids c \<noteq> {})"
proof -
  let ?gs = "group_rows df"
  let ?L = "layout chunk_size ?gs"
  let ?plan = "named 0 ?L"
  have r: "create_chunks df chunk_size = Inr ?plan" using assms(1) by (rule create_chunks_layout)
  have "?L \<noteq> []" by (rule layout_nonempty)
  then have pne: "?plan \<noteq> []" using named_length [of 0 ?L] by auto
  have "\<forall>c\<in>set ?plan. snd c \<noteq> [] \<and> chunk_ids c \<noteq> {}"
  proof
    fix c assume "c \<in> set ?plan"
    then have "snd c \<in> set (map snd ?plan)" by simp
    then have "snd c \<in> set (map rows_of ?L)" by (simp only: named_snd)
    then obtain gl where gl: "gl \<in> set ?L" "snd c = rows_of gl" by auto
    have "gl \<noteq> []" using assms(2) group_rows_nonempty [OF assms(1)] gl(1) by (rule layout_all_nonempty)
    moreover have "set gl \<subseteq> set ?gs" using gl(1) by (rule layout_subset)
    ultimately have "rows_of gl \<noteq> []" by (simp add: rows_of_nonempty)
    then show "snd c \<noteq> [] \<and> chunk_ids c \<noteq> {}" by (simp add: gl(2) chunk_ids_def)
  qed
  with r pne show ?thesis by blast
qed

theorem create_chunks_no_empty_chunk_witness:
  "[row_A_x, row_A_y, row_B] \<noteq> [] \<and> (1::int) \<le> 1
   \<and> create_chunks [row_A_x, row_A_y, row_B] 1
       = Inr [(''partition0'', [row_A_x, row_A_y]), (''partition1'', [row_B])]
   \<and> snd (''partition0'', [row_A_x, row_A_y]) \<noteq> []
   \<and> chunk_ids (''partition0'', [row_A_x, row_A_y]) \<noteq> {}"
proof -
  let ?df = "[row_A_x, row_A_y, row_B]"
  let ?plan = "[(''partition0'', [row_A_x, row_A_y]), (''partition1'', [row_B])]"
  have ne: "?df \<noteq> []" and h: "(1::int) \<le> 1" by simp_all
  have ev: "create_chunks ?df 1 = Inr ?plan" by (simp add: chunk_eval)
  from create_chunks_no_empty_chunk [OF ne h]
  obtain plan where p: "create_chunks ?df 1 = Inr plan \<and> plan \<noteq> []
           \<and> (\<forall>c\<in>set plan. snd c \<noteq> [] \<and> chunk_ids c \<noteq> {})" ..
  then have eq: "plan = ?plan" using ev by simp
  from p [unfolded eq] have "\<forall>c\<in>set ?plan. snd c \<noteq> [] \<and> chunk_ids c \<noteq> {}" by blast
  moreover have "(''partition0'', [row_A_x, row_A_y]) \<in> set ?plan" by simp
  ultimately have "snd (''partition0'', [row_A_x, row_A_y]) \<noteq> []
      \<and> chunk_ids (''partition0'', [row_A_x, row_A_y]) \<noteq> {}" by (rule bspec)
  with ne h ev show ?thesis by (intro conjI) simp_all
qed

section \<open>Claims about \<open>create_df\<close>\<close>

text \<open>
  Claim C6: a file whose group id starts with \<open>SSB\<close> is dropped before grouping. No row
  of the data frame has such a group id; removing these files from the walk changes
  neither the data frame, nor the count of distinct group ids, nor the plan; and no row of
  any chunk has such a group id. For a walk with one file of group \<open>SSB0001\<close> and one of
  group \<open>B\<close>, the data frame holds the row of \<open>B\<close> alone, the count is 1 and the plan is
  the single chunk of \<open>B\<close>.
\<close>

theorem create_df_drops_excluded:
  "(\<forall>r\<in>set (fst (create_df walk)). \<not> startswith (audio_id r) ''SSB'')
   \<and> fst (create_df (map drop_excluded walk)) = fst (create_df walk)
   \<and> nunique_audio_id (fst (create_df (map drop_excluded walk)))
       = nunique_audio_id (fst (create_df walk))
   \<and> create_chunks (fst (create_df (map drop_excluded walk))) chunk_size
       = create_chunks (fst (create_df walk)) chunk_size
   \<and> (\<forall>plan. create_chunks (fst (create_df walk)) chunk_size = Inr plan
         \<longrightarrow> (\<forall>c\<in>set plan. \<forall>r\<in>set (snd c). \<not> startswith (audio_id r) ''SSB''))
   \<and> create_df excluded_walk = ([row_B], [''Skipping SSB0001''])
   \<and> nunique_audio_id [row_B] = Inr 1
   \<and> create_chunks [row_B] 1 = Inr [(''partition0'', [row_B])]"
proof (intro conjI)
  show "\<forall>r\<in>set (fst (create_df walk)). \<not> startswith (audio_id r) ''SSB''"
    by (rule ballI) (rule create_df_row_not_excluded)
  show e: "fst (create_df (map drop_excluded walk)) = fst (create_df walk)"
    by (rule drop_excluded_same_rows)
  show "nunique_audio_id (fst (create_df (map drop_excluded walk)))
       = nunique_audio_id (fst (create_df walk))" by (simp only: e)
  show "create_chunks (fst (create_df (map drop_excluded walk))) chunk_size
       = create_chunks (fst (create_df walk)) chunk_size" by (simp only: e)
  show "\<forall>plan. create_chunks (fst (create_df walk)) chunk_size = Inr plan
         \<longrightarrow> (\<forall>c\<in>set plan. \<forall>r\<in>set (snd c). \<not> startswith (audio_id r) ''SSB'')"
  proof (intro allI impI ballI)
    fix plan c r
    assume "create_chunks (fst (create_df walk)) chunk_size = Inr plan"
      "c \<in> set plan" "r \<in> set (snd c)"
    then have "r \<in> set (fst (create_df walk))" by (rule plan_row_in_df)
    then show "\<not> startswith (audio_id r) ''SSB''" by (rule create_df_row_not_excluded)
  qed
  show "create_df excluded_walk = ([row_B], [''Skipping SSB0001''])"
    by (simp add: df_eval)
  show "nunique_audio_id [row_B] = Inr 1"
    by (simp add: nunique_audio_id_def)
  show "create_chunks [row_B] 1 = Inr [(''partition0'', [row_B])]"
    by (simp add: chunk_eval)
qed

theorem create_df_drops_excluded_witness:
  "row_B \<in> set (fst (create_df excluded_walk))
   \<and> \<not> startswith (audio_id row_B) ''SSB''
   \<and> create_chunks (fst (create_df excluded_walk)) 1 = Inr [(''partition0'', [row_B])]
   \<and> snd (create_df excluded_walk) = [''Skipping SSB0001'']"
proof -
  have df: "create_df excluded_walk = ([row_B], [''Skipping SSB0001''])" by (simp add: df_eval)
  then have m: "row_B \<in> set (fst (create_df excluded_walk))" by simp
  note t = create_df_drops_excluded [of excluded_walk 1]
  from t have "\<forall>r\<in>set (fst (create_df excluded_walk)). \<not> startswith (audio_id r) ''SSB''"
    by (rule conjunct1)
  then have a: "\<not> startswith (audio_id row_B) ''SSB''" using m by (rule bspec)
  have c: "create_chunks (fst (create_df excluded_walk)) 1 = Inr [(''partition0'', [row_B])]"
    by (simp only: df fst_conv) (simp add: chunk_eval)
  have s: "snd (create_df excluded_walk) = [''Skipping SSB0001'']" by (simp only: df snd_conv)
  from m a c s show ?thesis by (intro conjI)
qed

text \<open>
  Claim C7: the label of a retained item is a function of its file name only: the first
  three characters of the name if the name starts with \<open>F0\<close>, and \<open>R\<close> otherwise. Every
  row comes from a file of the walk and carries the label of that file; when the file names
  hold no path separator, as the names \<^verbatim>\<open>os.walk\<close> yields, the file name is the base name
  of the row's path, so the label is determined by the row's own payload.
\<close>

theorem create_df_label:
  "(\<forall>r\<in>set (fst (create_df walk)).
      \<exists>root dirs files fl. (root, dirs, files) \<in> set walk \<and> fl \<in> set files
        \<and> audio r = path_join root fl
        \<and> real_or_fake r = (if startswith fl ''F0'' then take 3 fl else ''R''))
   \<and> ((\<forall>(root, dirs, files)\<in>set walk. \<forall>fl\<in>set files. sep \<notin> set fl)
        \<longrightarrow> (\<forall>r\<in>set (fst (create_df walk)).
              real_or_fake r = (if startswith (basename (audio r)) ''F0''
                                then take 3 (basename (audio r)) else ''R'')))"
proof (intro conjI impI ballI)
  fix r assume "r \<in> set (fst (create_df walk))"
  from create_df_row [OF this] obtain root dirs files fl where
    "(root, dirs, files) \<in> set walk" "fl \<in> set files" "r = item_row root fl" by blast
  then show "\<exists>root dirs files fl. (root, dirs, files) \<in> set walk \<and> fl \<in> set files
        \<and> audio r = path_join root fl
        \<and> real_or_fake r = (if startswith fl ''F0'' then take 3 fl else ''R'')"
    by (auto simp: item_row_simps)
next
  fix r
  assume ns: "\<forall>(root, dirs, files)\<in>set walk. \<forall>fl\<in>set files. sep \<notin> set fl"
    and "r \<in> set (fst (create_df walk))"
  from create_df_row [OF this(2)] obtain root dirs files fl where
    w: "(root, dirs, files) \<in> set walk" "fl \<in> set files" and r: "r = item_row root fl" by blast
  have "sep \<notin> set fl" using ns w by blast
  then have "basename (audio r) = fl" by (simp add: r item_row_simps basename_path_join)
  then show "real_or_fake r = (if startswith (basename (audio r)) ''F0''
                                then take 3 (basename (audio r)) else ''R'')"
    by (simp add: r item_row_simps)
qed

theorem create_df_label_witness:
  "row_A_x \<in> set (fst (create_df example_walk))
   \<and> basename (audio row_A_x) = ''F01_x.flac''
   \<and> real_or_fake row_A_x = take 3 (basename (audio row_A_x))
   \<and> row_B \<in> set (fst (create_df example_walk))
   \<and> real_or_fake row_B = ''R''"
proof -
  have df: "create_df example_walk = ([row_A_x, row_A_y, row_B], [])" by (simp add: df_eval)
  then have m: "row_A_x \<in> set (fst (create_df example_walk))"
    "row_B \<in> set (fst (create_df example_walk))" by simp_all
  have ns: "\<forall>(root, dirs, files)\<in>set example_walk. \<forall>fl\<in>set files. sep \<notin> set fl"
    by (simp add: sep_def)
  note t = create_df_label [of example_walk, THEN conjunct2, THEN mp, OF ns]
  have bn: "basename (audio row_A_x) = ''F01_x.flac''" by (simp add: basename_def sep_def)
  from t m(1) have "real_or_fake row_A_x = (if startswith (basename (audio row_A_x)) ''F0''
       then take 3 (basename (audio row_A_x)) else ''R'')" by (rule bspec)
  then have a: "real_or_fake row_A_x = take 3 (basename (audio row_A_x))"
    by (simp add: basename_def sep_def startswith_def)
  from t m(2) have "real_or_fake row_B = (if startswith (basename (audio row_B)) ''F0''
       then take 3 (basename (audio row_B)) else ''R'')" by (rule bspec)
  then have b: "real_or_fake row_B = ''R''" by simp
  from m(1) bn a m(2) b show ?thesis by (intro conjI)
qed

text \<open>
  Claim C10: only the files whose names end with \<open>.flac\<close> become items. Removing every
  other file from the walk changes neither the data frame nor the printed lines, so such
  a file leaves no trace in the result of the scan; the path of every row of the data
  frame, and so of every row of every chunk, ends with \<open>.flac\<close>.
\<close>

theorem create_df_flac_only:
  "create_df (map flac_only walk) = create_df walk
   \<and> (\<forall>r\<in>set (fst (create_df walk)). endswith (audio r) ''.flac'')
   \<and> (\<forall>plan. create_chunks (fst (create_df walk)) chunk_size = Inr plan
         \<longrightarrow> (\<forall>c\<in>set plan. \<forall>r\<in>set (snd c). endswith (audio r) ''.flac''))"
proof (intro conjI)
  show "create_df (map flac_only walk) = create_df walk" by (rule flac_only_same_df)
  show "\<forall>r\<in>set (fst (create_df walk)). endswith (audio r) ''.flac''"
    by (rule ballI) (rule create_df_row_flac)
  show "\<forall>plan. create_chunks (fst (create_df walk)) chunk_size = Inr plan
         \<longrightarrow> (\<forall>c\<in>set plan. \<forall>r\<in>set (snd c). endswith (audio r) ''.flac'')"
  proof (intro allI impI ballI)
    fix plan c r
    assume "create_chunks (fst (create_df walk)) chunk_size = Inr plan" "c \<in> set plan" "r \<in> set (snd c)"
    then have "r \<in> set (fst (create_df walk))" by (rule plan_row_in_df)
    then show "endswith (audio r) ''.flac''" by (rule create_df_row_flac)
  qed
qed

theorem create_df_flac_only_witness:
  "create_df [(''data/B'', [], [''notes.txt'', ''real.flac'', ''real.wav''])] = ([row_B], [])
   \<and> create_df [(''data/B'', [], [''real.flac''])] = ([row_B], [])
   \<and> endswith (audio row_B) ''.flac''"
proof -
  let ?walk = "[(''data/B'', [], [''notes.txt'', ''real.flac'', ''real.wav''])]"
  have df: "create_df ?walk = ([row_B], [])" by (simp add: df_eval)
  note t = create_df_flac_only [of ?walk 1]
  from t have "create_df (map flac_only ?walk) = create_df ?walk" by (rule conjunct1)
  then have a: "create_df [(''data/B'', [], [''real.flac''])] = ([row_B], [])"
    by (simp add: df flac_only_def endswith_def)
  from t have "\<forall>r\<in>set (fst (create_df ?walk)). endswith (audio r) ''.flac''" by blast
  moreover have "row_B \<in> set (fst (create_df ?walk))" by (simp only: df) simp
  ultimately have b: "endswith (audio row_B) ''.flac''" by (rule bspec)
  from df a b show ?thesis by (intro conjI)
qed

end
